theory Spec2Isabelle
  imports Main
begin

section \<open>The watch loop of stern (src/stern/watch.go)\<close>

text \<open>
  \<^verbatim>\<open>Watch\<close> subscribes to pod events and starts one goroutine that turns them into
  sends on two unbuffered channels, \<^verbatim>\<open>added\<close> and \<^verbatim>\<open>removed\<close>. The goroutine owns
  the slice \<^verbatim>\<open>podNameList\<close>. The model below is that goroutine: its state is a record,
  every iteration of its \<^verbatim>\<open>for { select { ... } }\<close> is one step on that record, and
  the sends are appended, in program order, to one log.

  What the model takes from outside, as the code does:
  \<^item> the regular expressions, as their \<^verbatim>\<open>MatchString\<close> predicates on names
    (\<^verbatim>\<open>podFilter\<close> and \<^verbatim>\<open>containerFilter\<close> are used without a nil check and are
    taken to be set; \<^verbatim>\<open>containerExcludeFilter\<close> may be nil);
  \<^item> the \<^verbatim>\<open>ContainerState\<close> configuration (declared elsewhere in the package), as
    the two things the loop asks of it: \<^verbatim>\<open>Match\<close> on a container's state and
    \<^verbatim>\<open>has(ALL)\<close>;
  \<^item> the Kubernetes container state, as a type parameter \<open>'st\<close>: the loop only hands
    it to \<^verbatim>\<open>Match\<close>;
  \<^item> the order in which the \<^verbatim>\<open>select\<close> takes its two cases, as the list of cases
    taken. A send is assumed to be received: a consumer that never receives blocks the
    goroutine inside the send, which no state of this model describes.
\<close>

subsection \<open>Data\<close>

record Target =
  Namespace :: string
  Pod :: string
  Container :: string

text \<open>\<^verbatim>\<open>GetID\<close>: \<^verbatim>\<open>fmt.Sprintf("%s-%s-%s", ...)\<close>.\<close>

definition GetID :: "Target \<Rightarrow> string" where
  "GetID t = Namespace t @ ''-'' @ Pod t @ ''-'' @ Container t"

text \<open>\<^verbatim>\<open>corev1.ContainerStatus\<close> and \<^verbatim>\<open>corev1.Container\<close>, the fields the loop reads.\<close>

record 'st ContainerStatus =
  cs_Name :: string
  cs_State :: 'st

record ContainerSpec =
  c_Name :: string

text \<open>
  \<^verbatim>\<open>corev1.Pod\<close>: \<^verbatim>\<open>pod.Namespace\<close>, \<^verbatim>\<open>pod.Name\<close>, \<^verbatim>\<open>pod.Status.ContainerStatuses\<close>,
  \<^verbatim>\<open>pod.Status.InitContainerStatuses\<close>, \<^verbatim>\<open>pod.Spec.Containers\<close>,
  \<^verbatim>\<open>pod.Spec.InitContainers\<close>.
\<close>

record 'st PodObject =
  pod_Namespace :: string
  pod_Name :: string
  Status_ContainerStatuses :: "'st ContainerStatus list"
  Status_InitContainerStatuses :: "'st ContainerStatus list"
  Spec_Containers :: "ContainerSpec list"
  Spec_InitContainers :: "ContainerSpec list"

text \<open>
  \<^verbatim>\<open>e.Object\<close> is an interface value: nil, a \<^verbatim>\<open>*corev1.Pod\<close>, or an object of another
  kind, on which the type assertion \<^verbatim>\<open>e.Object.(*corev1.Pod)\<close> fails.
\<close>

datatype 'st RuntimeObject = IsPod "'st PodObject" | OtherKind

text \<open>
  \<^verbatim>\<open>watch.EventType\<close> is a string type with five declared constants; any other
  string, such as the empty one of a zero \<^verbatim>\<open>Event\<close>, is \<open>OtherType\<close>.
\<close>

datatype EventType = Added | Modified | Deleted | Bookmark | Error | OtherType string

record 'st Event =
  Type :: EventType
  Object :: "'st RuntimeObject option"

text \<open>The parameters of \<^verbatim>\<open>Watch\<close> that the goroutine reads.\<close>

record 'st WatchParams =
  podFilter :: "string \<Rightarrow> bool"
  containerFilter :: "string \<Rightarrow> bool"
  containerExcludeFilter :: "(string \<Rightarrow> bool) option"
  initContainers :: bool
  containerState_Match :: "'st \<Rightarrow> bool"
  containerState_has_ALL :: bool

text \<open>A send: \<^verbatim>\<open>added <- t\<close> or \<^verbatim>\<open>removed <- t\<close>.\<close>

datatype Send = OnAdded Target | OnRemoved Target

text \<open>The case a \<^verbatim>\<open>select\<close> takes: an event from the watcher, or \<^verbatim>\<open>ctx.Done()\<close>.\<close>

datatype 'st SelectCase = Recv "'st Event" | CtxDone

text \<open>
  The goroutine's state: its slice, the sends so far, whether each channel has been
  closed, how often \<^verbatim>\<open>watcher.Stop()\<close> has been called, and whether it has returned.
\<close>

record LoopState =
  podNameList :: "string list"
  sent :: "Send list"
  added_closed :: bool
  removed_closed :: bool
  watcher_stops :: nat
  returned :: bool

definition initial :: LoopState where
  "initial = \<lparr>podNameList = [], sent = [], added_closed = False, removed_closed = False,
     watcher_stops = 0, returned = False\<rparr>"

subsection \<open>The slice helpers\<close>

text \<open>\<^verbatim>\<open>contains\<close>: the index of the first element equal to the item, or -1.\<close>

fun contains_from :: "nat \<Rightarrow> string list \<Rightarrow> string \<Rightarrow> int" where
  "contains_from index [] podNameItem = - 1"
| "contains_from index (podName # rest) podNameItem =
     (if podName = podNameItem then int index
      else contains_from (Suc index) rest podNameItem)"

definition contains :: "string list \<Rightarrow> string \<Rightarrow> int" where
  "contains podNameSlice podNameItem = contains_from 0 podNameSlice podNameItem"

text \<open>
  The three statements that delete the element at \<open>index\<close> (only run with
  \<open>0 \<le> index < len\<close>):
  \<^verbatim>\<open>copy(podNameList[index:], podNameList[index+1:])\<close> moves the tail down by one and
  leaves the last cell as it was, \<^verbatim>\<open>podNameList[len-1] = ""\<close> clears that cell, and
  \<^verbatim>\<open>podNameList = podNameList[:len-1]\<close> drops it.
\<close>

definition remove_index :: "int \<Rightarrow> string list \<Rightarrow> string list" where
  "remove_index index xs =
     (let i = nat index;
          n = length xs;
          copied = take i xs @ drop (Suc i) xs @ drop (n - 1) xs;
          cleared = copied[n - 1 := '''']
      in take (n - 1) cleared)"

subsection \<open>The loop bodies\<close>

definition newTarget :: "'st PodObject \<Rightarrow> string \<Rightarrow> Target" where
  "newTarget pod name =
     \<lparr>Namespace = pod_Namespace pod, Pod = pod_Name pod, Container = name\<rparr>"

text \<open>\<^verbatim>\<open>containerExcludeFilter != nil && containerExcludeFilter.MatchString(name)\<close>\<close>

definition excluded :: "'st WatchParams \<Rightarrow> string \<Rightarrow> bool" where
  "excluded p name =
     (case containerExcludeFilter p of None \<Rightarrow> False | Some re \<Rightarrow> re name)"

text \<open>The "remove the element at index from podNameList" block, shared by both paths.\<close>

definition deregister :: "string \<Rightarrow> LoopState \<Rightarrow> LoopState" where
  "deregister name s =
     (let index = contains (podNameList s) name
      in if index \<noteq> - 1 then s\<lparr>podNameList := remove_index index (podNameList s)\<rparr>
         else s)"

definition register_and_add :: "Target \<Rightarrow> LoopState \<Rightarrow> LoopState" where
  "register_and_add t s =
     s\<lparr>podNameList := podNameList s @ [Pod t], sent := sent s @ [OnAdded t]\<rparr>"

text \<open>The body of \<^verbatim>\<open>for _, c := range statuses\<close> (watch.Added, watch.Modified).\<close>

definition status_body ::
  "'st WatchParams \<Rightarrow> 'st PodObject \<Rightarrow> LoopState \<Rightarrow> 'st ContainerStatus \<Rightarrow> LoopState" where
  "status_body p pod s c =
     (if \<not> containerFilter p (cs_Name c) then s
      else if excluded p (cs_Name c) then s
      else
        let t = newTarget pod (cs_Name c) in
        if containerState_Match p (cs_State c) then register_and_add t s
        else if containerState_has_ALL p then
          (if contains (podNameList s) (pod_Name pod) = - 1 then register_and_add t s
           else s)
        else
          (let s' = deregister (pod_Name pod) s
           in s'\<lparr>sent := sent s' @ [OnRemoved t]\<rparr>))"

text \<open>The body of \<^verbatim>\<open>for _, c := range containers\<close> (watch.Deleted).\<close>

definition container_body ::
  "'st WatchParams \<Rightarrow> 'st PodObject \<Rightarrow> LoopState \<Rightarrow> ContainerSpec \<Rightarrow> LoopState" where
  "container_body p pod s c =
     (if \<not> containerFilter p (c_Name c) then s
      else if excluded p (c_Name c) then s
      else
        (let s' = deregister (pod_Name pod) s
         in s'\<lparr>sent := sent s' @ [OnRemoved (newTarget pod (c_Name c))]\<rparr>))"

definition statuses :: "'st WatchParams \<Rightarrow> 'st PodObject \<Rightarrow> 'st ContainerStatus list" where
  "statuses p pod =
     Status_ContainerStatuses pod @
     (if initContainers p then Status_InitContainerStatuses pod else [])"

definition containers :: "'st WatchParams \<Rightarrow> 'st PodObject \<Rightarrow> ContainerSpec list" where
  "containers p pod =
     Spec_Containers pod @ (if initContainers p then Spec_InitContainers pod else [])"

subsection \<open>One iteration of the select loop, and the loop\<close>

definition on_event :: "'st WatchParams \<Rightarrow> 'st Event \<Rightarrow> LoopState \<Rightarrow> LoopState" where
  "on_event p e s =
     (case Object e of
        None \<Rightarrow> s\<lparr>returned := True\<rparr>
      | Some OtherKind \<Rightarrow> s
      | Some (IsPod pod) \<Rightarrow>
          if \<not> podFilter p (pod_Name pod) then s
          else
            (case Type e of
               Added \<Rightarrow> foldl (status_body p pod) s (statuses p pod)
             | Modified \<Rightarrow> foldl (status_body p pod) s (statuses p pod)
             | Deleted \<Rightarrow> foldl (container_body p pod) s (containers p pod)
             | Bookmark \<Rightarrow> s
             | Error \<Rightarrow> s
             | OtherType ty \<Rightarrow> s))"

definition on_done :: "LoopState \<Rightarrow> LoopState" where
  "on_done s =
     s\<lparr>watcher_stops := Suc (watcher_stops s), added_closed := True,
       removed_closed := True, returned := True\<rparr>"

definition select_step :: "'st WatchParams \<Rightarrow> 'st SelectCase \<Rightarrow> LoopState \<Rightarrow> LoopState" where
  "select_step p i s = (case i of Recv e \<Rightarrow> on_event p e s | CtxDone \<Rightarrow> on_done s)"

text \<open>
  The \<^verbatim>\<open>for\<close> loop over the cases the select takes. Once the goroutine has returned
  nothing later reaches it; at the end of the list it waits in the select.
\<close>

fun Watch_loop :: "'st WatchParams \<Rightarrow> LoopState \<Rightarrow> 'st SelectCase list \<Rightarrow> LoopState" where
  "Watch_loop p s [] = s"
| "Watch_loop p s (i # rest) =
     (if returned s then s else Watch_loop p (select_step p i s) rest)"

text \<open>
  \<^verbatim>\<open>Watch\<close> itself: a failed \<^verbatim>\<open>i.Watch\<close> is wrapped and returned with no channels;
  otherwise the goroutine starts on an empty \<^verbatim>\<open>podNameList\<close>.
\<close>

datatype WatchError = Wrapped string string

definition Watch ::
  "'st WatchParams \<Rightarrow> string option \<Rightarrow> 'st SelectCase list \<Rightarrow> WatchError + LoopState" where
  "Watch p watch_err cases =
     (case watch_err of
        Some err \<Rightarrow> Inl (Wrapped ''failed to set up watch'' err)
      | None \<Rightarrow> Inr (Watch_loop p initial cases))"

text \<open>The two output streams, read off the log.\<close>

fun added_of :: "Send list \<Rightarrow> Target list" where
  "added_of [] = []"
| "added_of (OnAdded t # xs) = t # added_of xs"
| "added_of (OnRemoved t # xs) = added_of xs"

fun removed_of :: "Send list \<Rightarrow> Target list" where
  "removed_of [] = []"
| "removed_of (OnAdded t # xs) = removed_of xs"
| "removed_of (OnRemoved t # xs) = t # removed_of xs"

fun target_of :: "Send \<Rightarrow> Target" where
  "target_of (OnAdded t) = t"
| "target_of (OnRemoved t) = t"

text \<open>A candidate child is processed when the include pattern matches and no exclusion applies.\<close>

definition survives :: "'st WatchParams \<Rightarrow> string \<Rightarrow> bool" where
  "survives p name = (containerFilter p name \<and> \<not> excluded p name)"

subsection \<open>Notions the properties are stated with\<close>

text \<open>
  The running balance of the notifications sent for one pod name: a send on \<^verbatim>\<open>added\<close>
  counts one up, a send on \<^verbatim>\<open>removed\<close> counts one down and stops at zero.
\<close>

fun tally :: "string \<Rightarrow> nat \<Rightarrow> Send \<Rightarrow> nat" where
  "tally name n (OnAdded t) = (if Pod t = name then Suc n else n)"
| "tally name n (OnRemoved t) = (if Pod t = name then n - 1 else n)"

definition balance :: "string \<Rightarrow> Send list \<Rightarrow> nat" where
  "balance name log = foldl (tally name) 0 log"

definition tallied :: "string \<Rightarrow> LoopState \<Rightarrow> bool" where
  "tallied name s = (count_list (podNameList s) name = balance name (sent s))"

text \<open>The select cases that deliver an Added or Modified event with an object.\<close>

fun erasable :: "'st SelectCase \<Rightarrow> bool" where
  "erasable CtxDone = False"
| "erasable (Recv e) = (Object e \<noteq> None \<and> (Type e = Added \<or> Type e = Modified))"

text \<open>Every send in a log is for a child that survives the name patterns.\<close>

definition unexcluded :: "'st WatchParams \<Rightarrow> Send list \<Rightarrow> bool" where
  "unexcluded p log = list_all (\<lambda>x. survives p (Container (target_of x))) log"

text \<open>The select cases other than the delivery of a Deleted event.\<close>

fun not_Deleted :: "'st SelectCase \<Rightarrow> bool" where
  "not_Deleted CtxDone = True"
| "not_Deleted (Recv e) = (Type e \<noteq> Deleted)"

text \<open>Two states agree on whether the goroutine has returned and on the removed stream.\<close>

definition same_removed :: "LoopState \<Rightarrow> LoopState \<Rightarrow> bool" where
  "same_removed s s' =
     (returned s = returned s' \<and> removed_of (sent s) = removed_of (sent s'))"

subsection \<open>Concrete inputs\<close>

text \<open>
  A three-valued container state, a classifier that matches \<open>Running\<close> only, pass-all
  name patterns, and the pod \<open>p1\<close> of namespace \<open>ns\<close>. The wildcard and the exclusion
  pattern are left open.
\<close>

datatype Phase = Waiting | Running | Terminated

definition ex_params :: "bool \<Rightarrow> (string \<Rightarrow> bool) option \<Rightarrow> Phase WatchParams" where
  "ex_params wildcard exclude =
     \<lparr>podFilter = (\<lambda>n. True), containerFilter = (\<lambda>n. True),
      containerExcludeFilter = exclude, initContainers = False,
      containerState_Match = (\<lambda>st. st = Running), containerState_has_ALL = wildcard\<rparr>"

definition ex_status :: "string \<Rightarrow> Phase \<Rightarrow> Phase ContainerStatus" where
  "ex_status name st = \<lparr>cs_Name = name, cs_State = st\<rparr>"

definition ex_pod :: "Phase ContainerStatus list \<Rightarrow> Phase PodObject" where
  "ex_pod sts =
     \<lparr>pod_Namespace = ''ns'', pod_Name = ''p1'',
      Status_ContainerStatuses = sts, Status_InitContainerStatuses = [],
      Spec_Containers = map (\<lambda>c. \<lparr>c_Name = cs_Name c\<rparr>) sts, Spec_InitContainers = []\<rparr>"

definition ex_event :: "EventType \<Rightarrow> Phase ContainerStatus list \<Rightarrow> Phase Event" where
  "ex_event ty sts = \<lparr>Type = ty, Object = Some (IsPod (ex_pod sts))\<rparr>"

definition ex_target :: "string \<Rightarrow> Target" where
  "ex_target name = \<lparr>Namespace = ''ns'', Pod = ''p1'', Container = name\<rparr>"

lemmas ex_defs =
  ex_params_def ex_status_def ex_pod_def ex_event_def ex_target_def initial_def

lemmas loop_defs =
  select_step_def on_event_def on_done_def statuses_def containers_def status_body_def
  container_body_def register_and_add_def deregister_def newTarget_def excluded_def
  contains_def remove_index_def

section \<open>Properties\<close>

subsection \<open>The slice helpers\<close>

lemma contains_from_absent: "(contains_from i xs x = - 1) = (x \<notin> set xs)"
  by (induction xs arbitrary: i) auto

lemma contains_from_nonneg: "x \<in> set xs \<Longrightarrow> int i \<le> contains_from i xs x"
proof (induction xs arbitrary: i)
  case Nil
  then show ?case by simp
next
  case (Cons y ys)
  show ?case
  proof (cases "y = x")
    case True
    then show ?thesis by simp
  next
    case False
    with Cons.prems have "x \<in> set ys" by simp
    from Cons.IH [OF this, of "Suc i"] False show ?thesis by simp
  qed
qed

lemma contains_absent: "(contains xs x = - 1) = (x \<notin> set xs)"
  by (simp add: contains_def contains_from_absent)

lemma remove_index_take_drop:
  "nat index < length xs \<Longrightarrow> remove_index index xs = take (nat index) xs @ drop (Suc (nat index)) xs"
proof -
  assume lt: "nat index < length xs"
  then have "length xs - 1 \<le> nat index \<Longrightarrow> nat index = length xs - 1" by linarith
  with lt show ?thesis
    by (auto simp add: remove_index_def Let_def min_def)
qed

lemma contains_from_remove1:
  "x \<in> set xs \<Longrightarrow>
   take (nat (contains_from i xs x) - i) xs @ drop (Suc (nat (contains_from i xs x) - i)) xs = remove1 x xs
   \<and> nat (contains_from i xs x) - i < length xs"
proof (induction xs arbitrary: i)
  case Nil
  then show ?case by simp
next
  case (Cons y ys)
  show ?case
  proof (cases "y = x")
    case True
    then show ?thesis by simp
  next
    case False
    with Cons.prems have mem: "x \<in> set ys" by simp
    from contains_from_nonneg [OF mem, of "Suc i"]
    have ge: "Suc i \<le> nat (contains_from (Suc i) ys x)" by linarith
    then have eq: "nat (contains_from (Suc i) ys x) - i = Suc (nat (contains_from (Suc i) ys x) - Suc i)"
      by linarith
    from Cons.IH [OF mem, of "Suc i"] False show ?thesis
      by (simp add: eq)
  qed
qed

lemma remove_index_contains:
  "x \<in> set xs \<Longrightarrow> remove_index (contains xs x) xs = remove1 x xs"
  using contains_from_remove1 [of x xs 0]
  by (simp add: contains_def remove_index_take_drop)

lemma deregister_podNameList: "podNameList (deregister x s) = remove1 x (podNameList s)"
  by (simp add: deregister_def Let_def contains_absent remove_index_contains remove1_idem)

lemma deregister_other:
  "sent (deregister x s) = sent s" "returned (deregister x s) = returned s"
  "added_closed (deregister x s) = added_closed s" "removed_closed (deregister x s) = removed_closed s"
  "watcher_stops (deregister x s) = watcher_stops s"
  by (simp_all add: deregister_def Let_def)

subsection \<open>What the loop bodies leave alone\<close>

lemma count_list_remove1:
  "count_list (remove1 x xs) y = (if x = y then count_list xs y - 1 else count_list xs y)"
  by (induction xs) auto

lemma status_body_flags:
  "returned (status_body p pod s c) = returned s"
  "added_closed (status_body p pod s c) = added_closed s"
  "removed_closed (status_body p pod s c) = removed_closed s"
  "watcher_stops (status_body p pod s c) = watcher_stops s"
  by (simp_all add: status_body_def Let_def register_and_add_def deregister_other)

lemma container_body_flags:
  "returned (container_body p pod s c) = returned s"
  "added_closed (container_body p pod s c) = added_closed s"
  "removed_closed (container_body p pod s c) = removed_closed s"
  "watcher_stops (container_body p pod s c) = watcher_stops s"
  by (simp_all add: container_body_def Let_def deregister_other)

lemma fold_status_flags:
  "returned (foldl (status_body p pod) s cs) = returned s"
  "added_closed (foldl (status_body p pod) s cs) = added_closed s"
  "removed_closed (foldl (status_body p pod) s cs) = removed_closed s"
  "watcher_stops (foldl (status_body p pod) s cs) = watcher_stops s"
  by (induction cs arbitrary: s) (simp_all add: status_body_flags)

lemma fold_container_flags:
  "returned (foldl (container_body p pod) s cs) = returned s"
  "added_closed (foldl (container_body p pod) s cs) = added_closed s"
  "removed_closed (foldl (container_body p pod) s cs) = removed_closed s"
  "watcher_stops (foldl (container_body p pod) s cs) = watcher_stops s"
  by (induction cs arbitrary: s) (simp_all add: container_body_flags)

lemma Watch_loop_returned: "returned s \<Longrightarrow> Watch_loop p s cases = s"
  by (cases cases) simp_all

lemma Watch_loop_append:
  "Watch_loop p s (xs @ ys) = Watch_loop p (Watch_loop p s xs) ys"
  by (induction xs arbitrary: s) (simp_all add: Watch_loop_returned)

lemma Watch_loop_one: "\<not> returned s \<Longrightarrow> Watch_loop p s [i] = select_step p i s"
  by simp

subsection \<open>The registry as a count of notifications\<close>

lemma balance_snoc: "balance name (log @ [x]) = tally name (balance name log) x"
  by (simp add: balance_def)

lemma tallied_status_body: "tallied name s \<Longrightarrow> tallied name (status_body p pod s c)"
  by (simp add: tallied_def status_body_def Let_def register_and_add_def newTarget_def
      deregister_podNameList deregister_other balance_snoc count_list_remove1)

lemma tallied_container_body: "tallied name s \<Longrightarrow> tallied name (container_body p pod s c)"
  by (simp add: tallied_def container_body_def Let_def newTarget_def
      deregister_podNameList deregister_other balance_snoc count_list_remove1)

lemma tallied_fold_status: "tallied name s \<Longrightarrow> tallied name (foldl (status_body p pod) s cs)"
  by (induction cs arbitrary: s) (simp_all add: tallied_status_body)

lemma tallied_fold_container:
  "tallied name s \<Longrightarrow> tallied name (foldl (container_body p pod) s cs)"
  by (induction cs arbitrary: s) (simp_all add: tallied_container_body)

lemma tallied_returned: "tallied name (s\<lparr>returned := b\<rparr>) = tallied name s"
  by (simp add: tallied_def)

lemma tallied_select_step: "tallied name s \<Longrightarrow> tallied name (select_step p i s)"
proof (cases i)
  case (Recv e)
  assume "tallied name s"
  then show ?thesis
    unfolding Recv select_step_def on_event_def
    by (simp add: tallied_fold_status tallied_fold_container tallied_returned
        split: option.splits RuntimeObject.splits EventType.splits)
next
  case CtxDone
  assume "tallied name s"
  then show ?thesis unfolding CtxDone select_step_def
    by (simp add: on_done_def tallied_def)
qed

lemma tallied_Watch_loop: "tallied name s \<Longrightarrow> tallied name (Watch_loop p s cases)"
  by (induction cases arbitrary: s) (simp_all add: tallied_select_step)

text \<open>
  Claim C1, as the code has it. The registry is a list, and a pod name can occur in it
  several times. After every sequence of select cases, the number of occurrences of a
  pod name in \<^verbatim>\<open>podNameList\<close> is the running balance of the notifications sent for
  that pod: one up for each added, one down (not below zero) for each removed. So a name
  is in the registry exactly when that balance is positive. The same count holds at the
  points inside an event, after any number of children have been processed on either
  path.
\<close>

theorem registry_counts_notifications:
  "count_list (podNameList (Watch_loop p initial cases)) name
     = balance name (sent (Watch_loop p initial cases))
   \<and> (name \<in> set (podNameList (Watch_loop p initial cases)))
     = (0 < balance name (sent (Watch_loop p initial cases)))
   \<and> count_list (podNameList (foldl (status_body p pod) (Watch_loop p initial cases) cs)) name
     = balance name (sent (foldl (status_body p pod) (Watch_loop p initial cases) cs))
   \<and> count_list (podNameList (foldl (container_body p pod) (Watch_loop p initial cases) ds)) name
     = balance name (sent (foldl (container_body p pod) (Watch_loop p initial cases) ds))"
proof -
  have "tallied name initial"
    by (simp add: tallied_def initial_def balance_def)
  then have t: "tallied name (Watch_loop p initial cases)"
    by (rule tallied_Watch_loop)
  then have c: "count_list (podNameList (Watch_loop p initial cases)) name
     = balance name (sent (Watch_loop p initial cases))"
    by (simp add: tallied_def)
  have "(name \<in> set (podNameList (Watch_loop p initial cases)))
     = (0 < count_list (podNameList (Watch_loop p initial cases)) name)"
    using count_list_0_iff [of "podNameList (Watch_loop p initial cases)" name] by auto
  with c have m: "(name \<in> set (podNameList (Watch_loop p initial cases)))
     = (0 < balance name (sent (Watch_loop p initial cases)))"
    by simp
  from tallied_fold_status [OF t, of p pod cs] tallied_fold_container [OF t, of p pod ds]
  show ?thesis using c m by (simp add: tallied_def)
qed

text \<open>
  Claim C1 as written fails. Two events that show the container \<open>c1\<close> of the pod
  \<open>p1\<close> running leave the name \<open>p1\<close> twice in the registry; and when a third event
  shows it terminated, the last notification for \<open>p1\<close> is a removed while \<open>p1\<close> is
  still in the registry.
\<close>

theorem registry_at_most_once_counterexample:
  "\<not> distinct (podNameList (Watch_loop (ex_params False None) initial
       [Recv (ex_event Added [ex_status ''c1'' Running]),
        Recv (ex_event Modified [ex_status ''c1'' Running])]))
   \<and> last (sent (Watch_loop (ex_params False None) initial
       [Recv (ex_event Added [ex_status ''c1'' Running]),
        Recv (ex_event Modified [ex_status ''c1'' Running]),
        Recv (ex_event Modified [ex_status ''c1'' Terminated])]))
       = OnRemoved (ex_target ''c1'')
   \<and> ''p1'' \<in> set (podNameList (Watch_loop (ex_params False None) initial
       [Recv (ex_event Added [ex_status ''c1'' Running]),
        Recv (ex_event Modified [ex_status ''c1'' Running]),
        Recv (ex_event Modified [ex_status ''c1'' Terminated])]))"
  by (simp add: ex_defs loop_defs Let_def)

subsection \<open>Upstream closure\<close>

lemma select_step_nil:
  "select_step p (Recv \<lparr>Type = ty, Object = None\<rparr>) s = s\<lparr>returned := True\<rparr>"
  by (simp add: select_step_def on_event_def)

text \<open>
  Claim C2, evaluated on the code. When the goroutine is running with both channels open
  and the watcher delivers an event with a nil object, it returns at once: nothing more
  is sent and no error is reported, but neither channel has been closed and the watcher
  has not been stopped. The claim says both streams are closed before the return; the
  \<^verbatim>\<open>ctx.Done()\<close> case of the same select does close them.
\<close>

theorem upstream_closed_leaves_streams_open:
  "Watch_loop p
     \<lparr>podNameList = names, sent = log, added_closed = False, removed_closed = False,
      watcher_stops = n, returned = False\<rparr>
     (Recv \<lparr>Type = ty, Object = None\<rparr> # rest)
   = \<lparr>podNameList = names, sent = log, added_closed = False, removed_closed = False,
      watcher_stops = n, returned = True\<rparr>"
  by (simp add: select_step_def on_event_def Watch_loop_returned)

subsection \<open>Exclusion\<close>

lemma sent_status_body:
  "sent (status_body p pod s c) = sent s \<or>
   (survives p (cs_Name c) \<and>
     (sent (status_body p pod s c) = sent s @ [OnAdded (newTarget pod (cs_Name c))] \<or>
      sent (status_body p pod s c) = sent s @ [OnRemoved (newTarget pod (cs_Name c))]))"
  by (simp add: status_body_def Let_def register_and_add_def deregister_other survives_def)

lemma sent_container_body:
  "sent (container_body p pod s c) =
     sent s @ (if survives p (c_Name c) then [OnRemoved (newTarget pod (c_Name c))] else [])"
  by (simp add: container_body_def Let_def deregister_other survives_def)

lemma unexcluded_status_body:
  "unexcluded p (sent s) \<Longrightarrow> unexcluded p (sent (status_body p pod s c))"
  using sent_status_body [of p pod s c]
  by (auto simp add: unexcluded_def newTarget_def)

lemma unexcluded_container_body:
  "unexcluded p (sent s) \<Longrightarrow> unexcluded p (sent (container_body p pod s c))"
  by (simp add: sent_container_body unexcluded_def newTarget_def)

lemma unexcluded_fold_status:
  "unexcluded p (sent s) \<Longrightarrow> unexcluded p (sent (foldl (status_body p pod) s cs))"
  by (induction cs arbitrary: s) (simp_all add: unexcluded_status_body)

lemma unexcluded_fold_container:
  "unexcluded p (sent s) \<Longrightarrow> unexcluded p (sent (foldl (container_body p pod) s cs))"
  by (induction cs arbitrary: s) (simp_all add: unexcluded_container_body)

lemma unexcluded_select_step:
  "unexcluded p (sent s) \<Longrightarrow> unexcluded p (sent (select_step p i s))"
  by (cases i)
    (simp_all add: select_step_def on_event_def on_done_def unexcluded_fold_status
      unexcluded_fold_container
      split: option.splits RuntimeObject.splits EventType.splits)

lemma unexcluded_Watch_loop:
  "unexcluded p (sent s) \<Longrightarrow> unexcluded p (sent (Watch_loop p s cases))"
  by (induction cases arbitrary: s) (simp_all add: unexcluded_select_step)

text \<open>
  Claim C7. When the exclusion pattern is set, no Target whose child name it matches is
  ever sent, on either channel, by any sequence of events, whatever the include pattern
  says about that name. The log holds the sends of the Added/Modified path and of the
  Deleted path alike.
\<close>

theorem exclusion_suppresses_every_send:
  assumes "containerExcludeFilter p = Some re"
  shows "\<forall>x \<in> set (sent (Watch_loop p initial cases)). \<not> re (Container (target_of x))"
proof -
  have "unexcluded p (sent initial)"
    by (simp add: unexcluded_def initial_def)
  then have "unexcluded p (sent (Watch_loop p initial cases))"
    by (rule unexcluded_Watch_loop)
  with assms show ?thesis
    by (simp add: unexcluded_def list_all_iff survives_def excluded_def)
qed

text \<open>
  With \<open>c2\<close> excluded and every name included, an Added, a Modified and a Deleted
  event for a pod with the children \<open>c1\<close> and \<open>c2\<close> send Targets for \<open>c1\<close> only.
\<close>

theorem exclusion_suppresses_every_send_witness:
  "containerExcludeFilter (ex_params False (Some (\<lambda>n. n = ''c2''))) = Some (\<lambda>n. n = ''c2'')
   \<and> containerFilter (ex_params False (Some (\<lambda>n. n = ''c2''))) ''c2''
   \<and> sent (Watch_loop (ex_params False (Some (\<lambda>n. n = ''c2''))) initial
        [Recv (ex_event Added [ex_status ''c1'' Running, ex_status ''c2'' Running]),
         Recv (ex_event Modified [ex_status ''c1'' Running, ex_status ''c2'' Terminated]),
         Recv (ex_event Deleted [ex_status ''c1'' Running, ex_status ''c2'' Terminated])])
      = [OnAdded (ex_target ''c1''), OnAdded (ex_target ''c1''), OnRemoved (ex_target ''c1'')]
   \<and> list_all (\<lambda>x. Container (target_of x) \<noteq> ''c2'')
        (sent (Watch_loop (ex_params False (Some (\<lambda>n. n = ''c2''))) initial
        [Recv (ex_event Added [ex_status ''c1'' Running, ex_status ''c2'' Running]),
         Recv (ex_event Modified [ex_status ''c1'' Running, ex_status ''c2'' Terminated]),
         Recv (ex_event Deleted [ex_status ''c1'' Running, ex_status ''c2'' Terminated])]))"
proof -
  have h: "containerExcludeFilter (ex_params False (Some (\<lambda>n. n = ''c2''))) = Some (\<lambda>n. n = ''c2'')"
    by (simp add: ex_params_def)
  have s: "sent (Watch_loop (ex_params False (Some (\<lambda>n. n = ''c2''))) initial
        [Recv (ex_event Added [ex_status ''c1'' Running, ex_status ''c2'' Running]),
         Recv (ex_event Modified [ex_status ''c1'' Running, ex_status ''c2'' Terminated]),
         Recv (ex_event Deleted [ex_status ''c1'' Running, ex_status ''c2'' Terminated])])
      = [OnAdded (ex_target ''c1''), OnAdded (ex_target ''c1''), OnRemoved (ex_target ''c1'')]"
    by (simp add: ex_defs loop_defs Let_def)
  from exclusion_suppresses_every_send [OF h, of "[Recv (ex_event Added [ex_status ''c1'' Running, ex_status ''c2'' Running]),
         Recv (ex_event Modified [ex_status ''c1'' Running, ex_status ''c2'' Terminated]),
         Recv (ex_event Deleted [ex_status ''c1'' Running, ex_status ''c2'' Terminated])]"]
  show ?thesis using h s
    by (simp add: list_all_iff ex_params_def)
qed

subsection \<open>Cancellation\<close>





subsection \<open>The wildcard and the removed stream\<close>

lemma removed_of_append: "removed_of (xs @ ys) = removed_of xs @ removed_of ys"
  by (induction xs rule: removed_of.induct) simp_all

lemma added_of_append: "added_of (xs @ ys) = added_of xs @ added_of ys"
  by (induction xs rule: added_of.induct) simp_all

lemma sent_fold_container:
  "sent (foldl (container_body p pod) s cs) =
     sent s @ map (\<lambda>c. OnRemoved (newTarget pod (c_Name c)))
                (filter (\<lambda>c. survives p (c_Name c)) cs)"
  by (induction cs arbitrary: s) (simp_all add: sent_container_body)

lemma removed_status_body_wildcard:
  "containerState_has_ALL p \<Longrightarrow>
   removed_of (sent (status_body p pod s c)) = removed_of (sent s)"
  by (simp add: status_body_def Let_def register_and_add_def removed_of_append)

lemma removed_fold_status_wildcard:
  "containerState_has_ALL p \<Longrightarrow>
   removed_of (sent (foldl (status_body p pod) s cs)) = removed_of (sent s)"
  by (induction cs arbitrary: s) (simp_all add: removed_status_body_wildcard)

lemma on_event_AddedModified:
  "Object e = Some (IsPod pod) \<Longrightarrow> Type e = Added \<or> Type e = Modified \<Longrightarrow>
   on_event p e s =
     (if podFilter p (pod_Name pod) then foldl (status_body p pod) s (statuses p pod) else s)"
  by (auto simp add: on_event_def)

lemma on_event_Deleted:
  "Object e = Some (IsPod pod) \<Longrightarrow> Type e = Deleted \<Longrightarrow>
   on_event p e s =
     (if podFilter p (pod_Name pod) then foldl (container_body p pod) s (containers p pod)
      else s)"
  by (simp add: on_event_def)

lemma on_event_OtherKind: "Object e = Some OtherKind \<Longrightarrow> on_event p e s = s"
  by (simp add: on_event_def)

lemma erasable_event:
  assumes "containerState_has_ALL p" and "Object e \<noteq> None"
    and "Type e = Added \<or> Type e = Modified"
  shows "same_removed (on_event p e s) s"
proof -
  from assms(2) obtain ob where ob: "Object e = Some ob" by auto
  show ?thesis
  proof (cases ob)
    case (IsPod pod)
    with ob have "Object e = Some (IsPod pod)" by simp
    from on_event_AddedModified [OF this assms(3)] assms(1) show ?thesis
      by (simp add: same_removed_def fold_status_flags removed_fold_status_wildcard)
  next
    case OtherKind
    with ob show ?thesis by (simp add: on_event_OtherKind same_removed_def)
  qed
qed

lemma erasable_step:
  "containerState_has_ALL p \<Longrightarrow> erasable i \<Longrightarrow> same_removed (select_step p i s) s"
  by (cases i) (simp_all add: select_step_def erasable_event)

lemma kept_step:
  "same_removed s s' \<Longrightarrow> \<not> erasable i \<Longrightarrow>
   same_removed (select_step p i s) (select_step p i s')"
  by (cases i)
    (auto simp add: same_removed_def select_step_def on_event_def on_done_def
      fold_container_flags sent_fold_container removed_of_append
      split: option.splits RuntimeObject.splits EventType.splits)

lemma same_removed_trans:
  "same_removed a b \<Longrightarrow> same_removed b c \<Longrightarrow> same_removed a c"
  by (simp add: same_removed_def)

lemma erase_Watch_loop:
  "containerState_has_ALL p \<Longrightarrow> same_removed s s' \<Longrightarrow>
   same_removed (Watch_loop p s cases) (Watch_loop p s' (filter (\<lambda>i. \<not> erasable i) cases))"
proof (induction cases arbitrary: s s')
  case Nil
  then show ?case by simp
next
  case (Cons i rest)
  show ?case
  proof (cases "returned s")
    case True
    with Cons.prems(2) have "returned s'" by (simp add: same_removed_def)
    with True Cons.prems(2) show ?thesis
      by (simp add: Watch_loop_returned)
  next
    case False
    with Cons.prems(2) have run': "\<not> returned s'" by (simp add: same_removed_def)
    show ?thesis
    proof (cases "erasable i")
      case True
      from erasable_step [OF Cons.prems(1) True, of s] Cons.prems(2)
      have "same_removed (select_step p i s) s'" by (rule same_removed_trans)
      from Cons.IH [OF Cons.prems(1) this] True False show ?thesis by simp
    next
      case ne: False
      from kept_step [OF Cons.prems(2) ne]
      have "same_removed (select_step p i s) (select_step p i s')" .
      from Cons.IH [OF Cons.prems(1) this] ne False run' show ?thesis by simp
    qed
  qed
qed

lemma not_Deleted_step:
  "containerState_has_ALL p \<Longrightarrow> not_Deleted i \<Longrightarrow>
   removed_of (sent (select_step p i s)) = removed_of (sent s)"
  by (cases i)
    (auto simp add: select_step_def on_event_def on_done_def
      removed_fold_status_wildcard split: option.splits RuntimeObject.splits EventType.splits)

text \<open>
  Claim C9. Under the wildcard, after any sequence of select cases, processing one more
  Added or Modified event leaves the removed stream as it was. And for every sequence,
  the removed stream is the one obtained when all deliveries of Added and Modified
  events are struck from the sequence: what is sent on \<^verbatim>\<open>removed\<close> comes from the
  Deleted events alone.
\<close>

theorem wildcard_removed_only_from_Deleted:
  assumes "containerState_has_ALL p"
  shows "(Type e = Added \<or> Type e = Modified \<longrightarrow>
            removed_of (sent (Watch_loop p initial (pre @ [Recv e])))
              = removed_of (sent (Watch_loop p initial pre)))
       \<and> removed_of (sent (Watch_loop p initial cases)) =
           removed_of (sent (Watch_loop p initial (filter (\<lambda>i. \<not> erasable i) cases)))"
proof -
  have "same_removed initial initial" by (simp add: same_removed_def)
  from erase_Watch_loop [OF assms this, of cases]
  have erase: "removed_of (sent (Watch_loop p initial cases)) =
           removed_of (sent (Watch_loop p initial (filter (\<lambda>i. \<not> erasable i) cases)))"
    by (simp add: same_removed_def)
  have one: "removed_of (sent (Watch_loop p initial (pre @ [Recv e])))
              = removed_of (sent (Watch_loop p initial pre))"
    if ty: "Type e = Added \<or> Type e = Modified"
  proof -
    from ty have "not_Deleted (Recv e)" by auto
    from not_Deleted_step [OF assms this]
    show ?thesis by (simp add: Watch_loop_append)
  qed
  from erase one show ?thesis by simp
qed

text \<open>
  Under the wildcard, \<open>c1\<close> waiting and then terminated sends nothing on \<^verbatim>\<open>removed\<close>;
  the Deleted event that follows sends the one removed Target.
\<close>

theorem wildcard_removed_only_from_Deleted_witness:
  "containerState_has_ALL (ex_params True None)
   \<and> sent (Watch_loop (ex_params True None) initial
        ([Recv (ex_event Added [ex_status ''c1'' Waiting])]
          @ [Recv (ex_event Modified [ex_status ''c1'' Terminated])]))
      = [OnAdded (ex_target ''c1'')]
   \<and> sent (Watch_loop (ex_params True None) initial
        [Recv (ex_event Added [ex_status ''c1'' Waiting]),
         Recv (ex_event Modified [ex_status ''c1'' Terminated]),
         Recv (ex_event Deleted [ex_status ''c1'' Terminated])])
      = [OnAdded (ex_target ''c1''), OnRemoved (ex_target ''c1'')]
   \<and> filter (\<lambda>i. \<not> erasable i)
        [Recv (ex_event Added [ex_status ''c1'' Waiting]),
         Recv (ex_event Modified [ex_status ''c1'' Terminated]),
         Recv (ex_event Deleted [ex_status ''c1'' Terminated])]
      = [Recv (ex_event Deleted [ex_status ''c1'' Terminated])]
   \<and> sent (Watch_loop (ex_params True None) initial
        [Recv (ex_event Deleted [ex_status ''c1'' Terminated])])
      = [OnRemoved (ex_target ''c1'')]"
proof -
  have h: "containerState_has_ALL (ex_params True None)" by (simp add: ex_defs)
  note T = wildcard_removed_only_from_Deleted [OF h,
      of "ex_event Modified [ex_status ''c1'' Terminated]"
         "[Recv (ex_event Added [ex_status ''c1'' Waiting])]"
         "[Recv (ex_event Added [ex_status ''c1'' Waiting]),
           Recv (ex_event Modified [ex_status ''c1'' Terminated]),
           Recv (ex_event Deleted [ex_status ''c1'' Terminated])]"]
  show ?thesis using T
    by (simp add: ex_defs loop_defs Let_def)
qed

subsection \<open>One event, child by child\<close>

lemma Watch_loop_Recv: "\<not> returned s \<Longrightarrow> Watch_loop p s [Recv e] = on_event p e s"
  by (simp add: select_step_def)

lemma Watch_loop_AddedModified:
  assumes "\<not> returned s" and "Type e = Added \<or> Type e = Modified"
    and "Object e = Some (IsPod pod)" and "podFilter p (pod_Name pod)"
  shows "Watch_loop p s [Recv e] = foldl (status_body p pod) s (statuses p pod)"
  using assms(1) on_event_AddedModified [OF assms(3) assms(2), of p s] assms(4)
  by (simp add: select_step_def)

lemma Watch_loop_Deleted:
  assumes "\<not> returned s" and "Type e = Deleted"
    and "Object e = Some (IsPod pod)" and "podFilter p (pod_Name pod)"
  shows "Watch_loop p s [Recv e] = foldl (container_body p pod) s (containers p pod)"
  using assms(1) on_event_Deleted [OF assms(3) assms(2), of p s] assms(4)
  by (simp add: select_step_def)

lemma count_sent_status_body_other:
  "cs_Name c \<noteq> name \<Longrightarrow>
   count_list (sent (status_body p pod s c)) (OnAdded (newTarget pod name))
     = count_list (sent s) (OnAdded (newTarget pod name)) \<and>
   count_list (sent (status_body p pod s c)) (OnRemoved (newTarget pod name))
     = count_list (sent s) (OnRemoved (newTarget pod name))"
  using sent_status_body [of p pod s c]
  by (auto simp add: newTarget_def)

lemma count_sent_fold_status_other:
  "name \<notin> cs_Name ` set cs \<Longrightarrow>
   count_list (sent (foldl (status_body p pod) s cs)) (OnAdded (newTarget pod name))
     = count_list (sent s) (OnAdded (newTarget pod name)) \<and>
   count_list (sent (foldl (status_body p pod) s cs)) (OnRemoved (newTarget pod name))
     = count_list (sent s) (OnRemoved (newTarget pod name))"
proof (induction cs arbitrary: s)
  case Nil
  then show ?case by simp
next
  case (Cons c cs)
  then have ne: "cs_Name c \<noteq> name" and rest: "name \<notin> cs_Name ` set cs" by auto
  from Cons.IH [OF rest, of "status_body p pod s c"]
    count_sent_status_body_other [OF ne, of p pod s]
  show ?case by simp
qed

lemma status_body_Match:
  "survives p (cs_Name c) \<Longrightarrow> containerState_Match p (cs_State c) \<Longrightarrow>
   status_body p pod s c = register_and_add (newTarget pod (cs_Name c)) s"
  by (simp add: status_body_def survives_def)

lemma status_body_wildcard:
  "survives p (cs_Name c) \<Longrightarrow> \<not> containerState_Match p (cs_State c) \<Longrightarrow>
   containerState_has_ALL p \<Longrightarrow>
   status_body p pod s c =
     (if pod_Name pod \<in> set (podNameList s) then s
      else register_and_add (newTarget pod (cs_Name c)) s)"
  by (simp add: status_body_def survives_def contains_absent)

lemma status_body_inactive:
  "survives p (cs_Name c) \<Longrightarrow> \<not> containerState_Match p (cs_State c) \<Longrightarrow>
   \<not> containerState_has_ALL p \<Longrightarrow>
   status_body p pod s c =
     s\<lparr>podNameList := remove1 (pod_Name pod) (podNameList s),
       sent := sent s @ [OnRemoved (newTarget pod (cs_Name c))]\<rparr>"
proof -
  have "deregister (pod_Name pod) s = s\<lparr>podNameList := remove1 (pod_Name pod) (podNameList s)\<rparr>"
    by (simp add: deregister_def Let_def contains_absent remove_index_contains remove1_idem)
  then show "survives p (cs_Name c) \<Longrightarrow> \<not> containerState_Match p (cs_State c) \<Longrightarrow>
   \<not> containerState_has_ALL p \<Longrightarrow> ?thesis"
    by (simp add: status_body_def survives_def Let_def)
qed

lemma split_names:
  assumes "distinct (map cs_Name (before @ c # after))"
  shows "cs_Name c \<notin> cs_Name ` set before" and "cs_Name c \<notin> cs_Name ` set after"
  using assms by auto

text \<open>
  Claim C3. Let the loop be running in any state, and let it receive an Added or
  Modified event for a pod that passes the pod pattern, whose candidate children have
  distinct names, and among them a child \<open>c\<close> that survives the name patterns and whose
  state the classifier matches: whatever \<open>c\<close>'s state was in earlier events, so in
  particular when it did not match before. Then processing \<open>c\<close> sends exactly one
  Target for \<open>c\<close> on \<^verbatim>\<open>added\<close>, the pod's name is in the registry right after it,
  and over the whole event the number of added Targets sent for \<open>c\<close> has grown by one.
\<close>

theorem matching_child_is_added:
  fixes p :: "'st WatchParams" and pod :: "'st PodObject" and c :: "'st ContainerStatus"
  defines "t \<equiv> newTarget pod (cs_Name c)"
  assumes "\<not> returned s"
    and "Type e = Added \<or> Type e = Modified"
    and "Object e = Some (IsPod pod)"
    and "podFilter p (pod_Name pod)"
    and "statuses p pod = before @ c # after"
    and "distinct (map cs_Name (statuses p pod))"
    and "survives p (cs_Name c)"
    and "containerState_Match p (cs_State c)"
  shows "sent (foldl (status_body p pod) s (before @ [c]))
           = sent (foldl (status_body p pod) s before) @ [OnAdded t]
       \<and> pod_Name pod \<in> set (podNameList (foldl (status_body p pod) s (before @ [c])))
       \<and> Watch_loop p s [Recv e]
           = foldl (status_body p pod) (foldl (status_body p pod) s (before @ [c])) after
       \<and> count_list (sent (Watch_loop p s [Recv e])) (OnAdded t)
           = Suc (count_list (sent s) (OnAdded t))"
proof -
  let ?prev = "foldl (status_body p pod) s before"
  let ?here = "foldl (status_body p pod) s (before @ [c])"
  have here: "?here = register_and_add t ?prev"
    using assms(8,9) by (simp add: status_body_Match t_def)
  have loop: "Watch_loop p s [Recv e] = foldl (status_body p pod) ?here after"
    using Watch_loop_AddedModified [OF assms(2-5)] assms(6) by simp
  from assms(6,7) have d: "distinct (map cs_Name (before @ c # after))" by simp
  have "count_list (sent ?prev) (OnAdded t) = count_list (sent s) (OnAdded t)"
    using count_sent_fold_status_other [OF split_names(1) [OF d]] by (simp add: t_def)
  moreover have "count_list (sent (foldl (status_body p pod) ?here after)) (OnAdded t)
      = count_list (sent ?here) (OnAdded t)"
    using count_sent_fold_status_other [OF split_names(2) [OF d]] by (simp add: t_def)
  ultimately have "count_list (sent (Watch_loop p s [Recv e])) (OnAdded t)
           = Suc (count_list (sent s) (OnAdded t))"
    unfolding loop here by (simp add: register_and_add_def)
  with here loop show ?thesis
    by (simp add: register_and_add_def t_def newTarget_def)
qed

text \<open>
  The pod \<open>p1\<close> first shows \<open>c1\<close> waiting, then running: the second event sends one
  added Target for \<open>c1\<close>.
\<close>

theorem matching_child_is_added_witness:
  "\<not> returned (Watch_loop (ex_params False None) initial
        [Recv (ex_event Added [ex_status ''c0'' Running, ex_status ''c1'' Waiting])])
   \<and> survives (ex_params False None) ''c1''
   \<and> \<not> containerState_Match (ex_params False None) Waiting
   \<and> containerState_Match (ex_params False None) Running
   \<and> sent (Watch_loop (ex_params False None) initial
        [Recv (ex_event Added [ex_status ''c0'' Running, ex_status ''c1'' Waiting])])
      = [OnAdded (ex_target ''c0''), OnRemoved (ex_target ''c1'')]
   \<and> sent (Watch_loop (ex_params False None)
        (Watch_loop (ex_params False None) initial
          [Recv (ex_event Added [ex_status ''c0'' Running, ex_status ''c1'' Waiting])])
        [Recv (ex_event Modified [ex_status ''c0'' Running, ex_status ''c1'' Running])])
      = [OnAdded (ex_target ''c0''), OnRemoved (ex_target ''c1''),
         OnAdded (ex_target ''c0''), OnAdded (ex_target ''c1'')]
   \<and> podNameList (Watch_loop (ex_params False None)
        (Watch_loop (ex_params False None) initial
          [Recv (ex_event Added [ex_status ''c0'' Running, ex_status ''c1'' Waiting])])
        [Recv (ex_event Modified [ex_status ''c0'' Running, ex_status ''c1'' Running])])
      = [''p1'', ''p1'']"
proof -
  let ?p = "ex_params False None"
  let ?s = "Watch_loop ?p initial
        [Recv (ex_event Added [ex_status ''c0'' Running, ex_status ''c1'' Waiting])]"
  let ?e = "ex_event Modified [ex_status ''c0'' Running, ex_status ''c1'' Running]"
  let ?pod = "ex_pod [ex_status ''c0'' Running, ex_status ''c1'' Running]"
  have s: "?s = \<lparr>podNameList = [], sent = [OnAdded (ex_target ''c0''), OnRemoved (ex_target ''c1'')],
      added_closed = False, removed_closed = False, watcher_stops = 0, returned = False\<rparr>"
    by (simp add: ex_defs loop_defs Let_def)
  have h1: "\<not> returned ?s" unfolding s by simp
  have h2: "Type ?e = Added \<or> Type ?e = Modified" by (simp add: ex_defs)
  have h3: "Object ?e = Some (IsPod ?pod)" by (simp add: ex_defs)
  have h4: "podFilter ?p (pod_Name ?pod)" by (simp add: ex_defs)
  have h5: "statuses ?p ?pod = [ex_status ''c0'' Running] @ ex_status ''c1'' Running # []"
    by (simp add: ex_defs statuses_def)
  have h6: "distinct (map cs_Name (statuses ?p ?pod))" by (simp add: ex_defs statuses_def)
  have h7: "survives ?p (cs_Name (ex_status ''c1'' Running))"
    by (simp add: ex_defs survives_def excluded_def)
  have h8: "containerState_Match ?p (cs_State (ex_status ''c1'' Running))" by (simp add: ex_defs)
  note T = matching_child_is_added [OF h1 h2 h3 h4 h5 h6 h7 h8]
  show ?thesis using T
    by (simp add: ex_defs loop_defs survives_def Let_def)
qed

subsection \<open>A child that stops matching\<close>

lemma count_list_remove1_same: "count_list (remove1 x xs) x = count_list xs x - 1"
  by (simp add: count_list_remove1)

text \<open>
  Claim C4, as the code has it. With the wildcard off, let the loop receive an Added or
  Modified event as in C3, with a surviving child \<open>c\<close> whose state the classifier does
  not match. Then processing \<open>c\<close> sends exactly one Target for \<open>c\<close> on \<^verbatim>\<open>removed\<close>
  and deletes the first occurrence of the pod's name from the registry when there is
  one; when the name is absent the registry stays as it is. Over the whole event the
  number of removed Targets sent for \<open>c\<close> has grown by one.
\<close>

theorem unmatching_child_is_removed:
  fixes p :: "'st WatchParams" and pod :: "'st PodObject" and c :: "'st ContainerStatus"
  defines "t \<equiv> newTarget pod (cs_Name c)"
  assumes "\<not> returned s"
    and "Type e = Added \<or> Type e = Modified"
    and "Object e = Some (IsPod pod)"
    and "podFilter p (pod_Name pod)"
    and "statuses p pod = before @ c # after"
    and "distinct (map cs_Name (statuses p pod))"
    and "survives p (cs_Name c)"
    and "\<not> containerState_Match p (cs_State c)"
    and "\<not> containerState_has_ALL p"
  shows "sent (foldl (status_body p pod) s (before @ [c]))
           = sent (foldl (status_body p pod) s before) @ [OnRemoved t]
       \<and> podNameList (foldl (status_body p pod) s (before @ [c]))
           = remove1 (pod_Name pod) (podNameList (foldl (status_body p pod) s before))
       \<and> count_list (podNameList (foldl (status_body p pod) s (before @ [c]))) (pod_Name pod)
           = count_list (podNameList (foldl (status_body p pod) s before)) (pod_Name pod) - 1
       \<and> Watch_loop p s [Recv e]
           = foldl (status_body p pod) (foldl (status_body p pod) s (before @ [c])) after
       \<and> count_list (sent (Watch_loop p s [Recv e])) (OnRemoved t)
           = Suc (count_list (sent s) (OnRemoved t))"
proof -
  let ?prev = "foldl (status_body p pod) s before"
  let ?here = "foldl (status_body p pod) s (before @ [c])"
  have here: "?here = ?prev\<lparr>podNameList := remove1 (pod_Name pod) (podNameList ?prev),
       sent := sent ?prev @ [OnRemoved t]\<rparr>"
    using assms(8-10) by (simp add: status_body_inactive t_def)
  have loop: "Watch_loop p s [Recv e] = foldl (status_body p pod) ?here after"
    using Watch_loop_AddedModified [OF assms(2-5)] assms(6) by simp
  from assms(6,7) have d: "distinct (map cs_Name (before @ c # after))" by simp
  have "count_list (sent ?prev) (OnRemoved t) = count_list (sent s) (OnRemoved t)"
    using count_sent_fold_status_other [OF split_names(1) [OF d]] by (simp add: t_def)
  moreover have "count_list (sent (foldl (status_body p pod) ?here after)) (OnRemoved t)
      = count_list (sent ?here) (OnRemoved t)"
    using count_sent_fold_status_other [OF split_names(2) [OF d]] by (simp add: t_def)
  ultimately have "count_list (sent (Watch_loop p s [Recv e])) (OnRemoved t)
           = Suc (count_list (sent s) (OnRemoved t))"
    unfolding loop here by simp
  with here loop show ?thesis
    by (simp add: count_list_remove1_same)
qed

text \<open>
  The pod \<open>p1\<close> shows \<open>c0\<close> and \<open>c1\<close> running, then \<open>c1\<close> terminated: the second
  event registers \<open>p1\<close> once more for \<open>c0\<close> and takes one occurrence away for \<open>c1\<close>.
\<close>

theorem unmatching_child_is_removed_witness:
  "\<not> returned (Watch_loop (ex_params False None) initial
        [Recv (ex_event Added [ex_status ''c0'' Running, ex_status ''c1'' Running])])
   \<and> survives (ex_params False None) ''c1''
   \<and> containerState_Match (ex_params False None) Running
   \<and> \<not> containerState_Match (ex_params False None) Terminated
   \<and> \<not> containerState_has_ALL (ex_params False None)
   \<and> Watch_loop (ex_params False None) initial
        [Recv (ex_event Added [ex_status ''c0'' Running, ex_status ''c1'' Running])]
      = \<lparr>podNameList = [''p1'', ''p1''],
         sent = [OnAdded (ex_target ''c0''), OnAdded (ex_target ''c1'')],
         added_closed = False, removed_closed = False, watcher_stops = 0, returned = False\<rparr>
   \<and> Watch_loop (ex_params False None)
        (Watch_loop (ex_params False None) initial
          [Recv (ex_event Added [ex_status ''c0'' Running, ex_status ''c1'' Running])])
        [Recv (ex_event Modified [ex_status ''c0'' Running, ex_status ''c1'' Terminated])]
      = \<lparr>podNameList = [''p1'', ''p1''],
         sent = [OnAdded (ex_target ''c0''), OnAdded (ex_target ''c1''),
                 OnAdded (ex_target ''c0''), OnRemoved (ex_target ''c1'')],
         added_closed = False, removed_closed = False, watcher_stops = 0, returned = False\<rparr>"
proof -
  let ?p = "ex_params False None"
  let ?s = "Watch_loop ?p initial
        [Recv (ex_event Added [ex_status ''c0'' Running, ex_status ''c1'' Running])]"
  let ?e = "ex_event Modified [ex_status ''c0'' Running, ex_status ''c1'' Terminated]"
  let ?pod = "ex_pod [ex_status ''c0'' Running, ex_status ''c1'' Terminated]"
  have h1: "\<not> returned ?s" by (simp add: ex_defs loop_defs Let_def)
  have h2: "Type ?e = Added \<or> Type ?e = Modified" by (simp add: ex_defs)
  have h3: "Object ?e = Some (IsPod ?pod)" by (simp add: ex_defs)
  have h4: "podFilter ?p (pod_Name ?pod)" by (simp add: ex_defs)
  have h5: "statuses ?p ?pod = [ex_status ''c0'' Running] @ ex_status ''c1'' Terminated # []"
    by (simp add: ex_defs statuses_def)
  have h6: "distinct (map cs_Name (statuses ?p ?pod))" by (simp add: ex_defs statuses_def)
  have h7: "survives ?p (cs_Name (ex_status ''c1'' Terminated))"
    by (simp add: ex_defs survives_def excluded_def)
  have h8: "\<not> containerState_Match ?p (cs_State (ex_status ''c1'' Terminated))"
    by (simp add: ex_defs)
  have h9: "\<not> containerState_has_ALL ?p" by (simp add: ex_defs)
  note T = unmatching_child_is_removed [OF h1 h2 h3 h4 h5 h6 h7 h8 h9]
  show ?thesis using T
    by (simp add: ex_defs loop_defs survives_def Let_def)
qed

text \<open>
  Claim C4 as written fails. The pod \<open>p1\<close> shows \<open>c1\<close> running and \<open>c2\<close> waiting:
  \<open>c1\<close> registers \<open>p1\<close> and \<open>c2\<close> takes it out again. When the next event shows
  \<open>c1\<close> terminated, a removed Target is sent for \<open>c1\<close>, yet the registry was empty
  before that event and is empty after it: no occurrence of \<open>p1\<close> is removed.
\<close>

theorem unmatching_child_counterexample:
  "containerState_Match (ex_params False None) Running
   \<and> \<not> containerState_Match (ex_params False None) Terminated
   \<and> \<not> containerState_has_ALL (ex_params False None)
   \<and> Watch_loop (ex_params False None) initial
        [Recv (ex_event Added [ex_status ''c1'' Running, ex_status ''c2'' Waiting])]
      = \<lparr>podNameList = [],
         sent = [OnAdded (ex_target ''c1''), OnRemoved (ex_target ''c2'')],
         added_closed = False, removed_closed = False, watcher_stops = 0, returned = False\<rparr>
   \<and> Watch_loop (ex_params False None) initial
        [Recv (ex_event Added [ex_status ''c1'' Running, ex_status ''c2'' Waiting]),
         Recv (ex_event Modified [ex_status ''c1'' Terminated, ex_status ''c2'' Waiting])]
      = \<lparr>podNameList = [],
         sent = [OnAdded (ex_target ''c1''), OnRemoved (ex_target ''c2''),
                 OnRemoved (ex_target ''c1''), OnRemoved (ex_target ''c2'')],
         added_closed = False, removed_closed = False, watcher_stops = 0, returned = False\<rparr>
   \<and> count_list (podNameList (Watch_loop (ex_params False None) initial
        [Recv (ex_event Added [ex_status ''c1'' Running, ex_status ''c2'' Waiting])])) ''p1''
      \<noteq> Suc (count_list (podNameList (Watch_loop (ex_params False None) initial
        [Recv (ex_event Added [ex_status ''c1'' Running, ex_status ''c2'' Waiting]),
         Recv (ex_event Modified [ex_status ''c1'' Terminated, ex_status ''c2'' Waiting])]))
          ''p1'')"
  by (simp add: ex_defs loop_defs Let_def)

subsection \<open>First sight under the wildcard\<close>

lemma registry_grows_status_body:
  "containerState_has_ALL p \<Longrightarrow>
   set (podNameList s) \<subseteq> set (podNameList (status_body p pod s c))"
  by (auto simp add: status_body_def Let_def register_and_add_def)

lemma registry_grows_fold_status:
  "containerState_has_ALL p \<Longrightarrow>
   set (podNameList s) \<subseteq> set (podNameList (foldl (status_body p pod) s cs))"
proof (induction cs arbitrary: s)
  case Nil
  then show ?case by simp
next
  case (Cons c cs)
  from registry_grows_status_body [OF Cons.prems, of s pod c]
    Cons.IH [OF Cons.prems, of "status_body p pod s c"]
  show ?case by auto
qed

text \<open>
  Claim C5. Under the wildcard, let the loop receive an Added or Modified event as in
  C3, with a surviving child \<open>c\<close> whose state the classifier does not match. When the
  pod's name is in the registry as the loop reaches \<open>c\<close>, processing \<open>c\<close> changes
  nothing and no added Target is sent for \<open>c\<close> in this event. When it is not, the
  name is appended to the registry and exactly one added Target is sent for \<open>c\<close>.
  Either way the name is in the registry after the event.
\<close>

theorem wildcard_first_sight:
  fixes p :: "'st WatchParams" and pod :: "'st PodObject" and c :: "'st ContainerStatus"
  defines "t \<equiv> newTarget pod (cs_Name c)"
  assumes "\<not> returned s"
    and "Type e = Added \<or> Type e = Modified"
    and "Object e = Some (IsPod pod)"
    and "podFilter p (pod_Name pod)"
    and "statuses p pod = before @ c # after"
    and "distinct (map cs_Name (statuses p pod))"
    and "survives p (cs_Name c)"
    and "\<not> containerState_Match p (cs_State c)"
    and "containerState_has_ALL p"
  shows "foldl (status_body p pod) s (before @ [c])
           = (if pod_Name pod \<in> set (podNameList (foldl (status_body p pod) s before))
              then foldl (status_body p pod) s before
              else (foldl (status_body p pod) s before)
                \<lparr>podNameList := podNameList (foldl (status_body p pod) s before) @ [pod_Name pod],
                  sent := sent (foldl (status_body p pod) s before) @ [OnAdded t]\<rparr>)
       \<and> Watch_loop p s [Recv e]
           = foldl (status_body p pod) (foldl (status_body p pod) s (before @ [c])) after
       \<and> count_list (sent (Watch_loop p s [Recv e])) (OnAdded t)
           = (if pod_Name pod \<in> set (podNameList (foldl (status_body p pod) s before))
              then count_list (sent s) (OnAdded t)
              else Suc (count_list (sent s) (OnAdded t)))
       \<and> pod_Name pod \<in> set (podNameList (Watch_loop p s [Recv e]))"
proof -
  let ?prev = "foldl (status_body p pod) s before"
  let ?here = "foldl (status_body p pod) s (before @ [c])"
  have step: "status_body p pod ?prev c = (if pod_Name pod \<in> set (podNameList ?prev) then ?prev
      else ?prev\<lparr>podNameList := podNameList ?prev @ [pod_Name pod],
                  sent := sent ?prev @ [OnAdded t]\<rparr>)"
    using assms(8-10) by (simp add: status_body_wildcard t_def register_and_add_def newTarget_def)
  have here: "?here = status_body p pod ?prev c" by simp
  have loop: "Watch_loop p s [Recv e] = foldl (status_body p pod) ?here after"
    using Watch_loop_AddedModified [OF assms(2-5)] assms(6) by simp
  from assms(6,7) have d: "distinct (map cs_Name (before @ c # after))" by simp
  have "count_list (sent ?prev) (OnAdded t) = count_list (sent s) (OnAdded t)"
    using count_sent_fold_status_other [OF split_names(1) [OF d]] by (simp add: t_def)
  moreover have "count_list (sent (foldl (status_body p pod) ?here after)) (OnAdded t)
      = count_list (sent ?here) (OnAdded t)"
    using count_sent_fold_status_other [OF split_names(2) [OF d]] by (simp add: t_def)
  ultimately have cnt: "count_list (sent (Watch_loop p s [Recv e])) (OnAdded t)
           = (if pod_Name pod \<in> set (podNameList ?prev)
              then count_list (sent s) (OnAdded t)
              else Suc (count_list (sent s) (OnAdded t)))"
    unfolding loop here step by simp
  have "pod_Name pod \<in> set (podNameList ?here)"
    unfolding here step by simp
  with registry_grows_fold_status [OF assms(10), of ?here pod after]
  have mem: "pod_Name pod \<in> set (podNameList (Watch_loop p s [Recv e]))"
    unfolding loop by auto
  from step loop cnt mem show ?thesis unfolding here by simp
qed

text \<open>
  Both cases: the first event for \<open>p1\<close>, with \<open>c1\<close> waiting, registers \<open>p1\<close> and
  sends an added Target; the same status again sends nothing.
\<close>

theorem wildcard_first_sight_witness:
  "containerState_has_ALL (ex_params True None)
   \<and> \<not> containerState_Match (ex_params True None) Waiting
   \<and> survives (ex_params True None) ''c1''
   \<and> ''p1'' \<notin> set (podNameList initial)
   \<and> Watch_loop (ex_params True None) initial [Recv (ex_event Added [ex_status ''c1'' Waiting])]
      = \<lparr>podNameList = [''p1''], sent = [OnAdded (ex_target ''c1'')],
         added_closed = False, removed_closed = False, watcher_stops = 0, returned = False\<rparr>
   \<and> Watch_loop (ex_params True None)
        (Watch_loop (ex_params True None) initial
           [Recv (ex_event Added [ex_status ''c1'' Waiting])])
        [Recv (ex_event Modified [ex_status ''c1'' Waiting])]
      = \<lparr>podNameList = [''p1''], sent = [OnAdded (ex_target ''c1'')],
         added_closed = False, removed_closed = False, watcher_stops = 0, returned = False\<rparr>"
proof -
  let ?p = "ex_params True None"
  let ?s = "Watch_loop ?p initial [Recv (ex_event Added [ex_status ''c1'' Waiting])]"
  let ?pod = "ex_pod [ex_status ''c1'' Waiting]"
  have a1: "\<not> returned initial" by (simp add: initial_def)
  have b1: "\<not> returned ?s" by (simp add: ex_defs loop_defs Let_def)
  have a2: "Type (ex_event Added [ex_status ''c1'' Waiting]) = Added
      \<or> Type (ex_event Added [ex_status ''c1'' Waiting]) = Modified"
    by (simp add: ex_defs)
  have b2: "Type (ex_event Modified [ex_status ''c1'' Waiting]) = Added
      \<or> Type (ex_event Modified [ex_status ''c1'' Waiting]) = Modified"
    by (simp add: ex_defs)
  have a3: "Object (ex_event Added [ex_status ''c1'' Waiting]) = Some (IsPod ?pod)"
    by (simp add: ex_defs)
  have b3: "Object (ex_event Modified [ex_status ''c1'' Waiting]) = Some (IsPod ?pod)"
    by (simp add: ex_defs)
  have h4: "podFilter ?p (pod_Name ?pod)" by (simp add: ex_defs)
  have h5: "statuses ?p ?pod = [] @ ex_status ''c1'' Waiting # []"
    by (simp add: ex_defs statuses_def)
  have h6: "distinct (map cs_Name (statuses ?p ?pod))" by (simp add: ex_defs statuses_def)
  have h7: "survives ?p (cs_Name (ex_status ''c1'' Waiting))"
    by (simp add: ex_defs survives_def excluded_def)
  have h8: "\<not> containerState_Match ?p (cs_State (ex_status ''c1'' Waiting))"
    by (simp add: ex_defs)
  have h9: "containerState_has_ALL ?p" by (simp add: ex_defs)
  note absent = wildcard_first_sight [OF a1 a2 a3 h4 h5 h6 h7 h8 h9]
  note present = wildcard_first_sight [OF b1 b2 b3 h4 h5 h6 h7 h8 h9]
  show ?thesis using absent present
    by (simp add: ex_defs loop_defs survives_def Let_def)
qed

subsection \<open>Deleted pods\<close>

lemma podNameList_container_body:
  "podNameList (container_body p pod s c) =
     (if survives p (c_Name c) then remove1 (pod_Name pod) (podNameList s) else podNameList s)"
  by (simp add: container_body_def Let_def deregister_podNameList survives_def)

lemma podNameList_fold_container:
  "podNameList (foldl (container_body p pod) s cs) =
     (remove1 (pod_Name pod) ^^ length (filter (\<lambda>c. survives p (c_Name c)) cs)) (podNameList s)"
  by (induction cs arbitrary: s) (simp_all add: podNameList_container_body funpow_swap1)

lemma length_funpow_remove1: "length xs - k \<le> length ((remove1 x ^^ k) xs)"
proof (induction k)
  case 0
  then show ?case by simp
next
  case (Suc k)
  have "length ((remove1 x ^^ k) xs) - 1 \<le> length (remove1 x ((remove1 x ^^ k) xs))"
    by (simp add: length_remove1)
  with Suc show ?case by simp
qed

text \<open>
  Claim C6. Let the loop be running in any state and receive a Deleted event for a pod
  that passes the pod pattern. The candidates are the pod's \<^verbatim>\<open>Spec.Containers\<close>,
  followed by its \<^verbatim>\<open>Spec.InitContainers\<close> when \<^verbatim>\<open>initContainers\<close> is set. One
  removed Target is sent for every candidate that survives the name patterns, in order,
  whatever the statuses, the classifier and the registry are; and for each of them the
  first occurrence of the pod's name, if any, is deleted from the registry, so the
  registry loses at most as many entries as there are surviving children.
\<close>

theorem deleted_removes_every_child:
  assumes "\<not> returned s"
    and "Type e = Deleted"
    and "Object e = Some (IsPod pod)"
    and "podFilter p (pod_Name pod)"
  shows "sent (Watch_loop p s [Recv e])
           = sent s @ map (\<lambda>c. OnRemoved (newTarget pod (c_Name c)))
               (filter (\<lambda>c. containerFilter p (c_Name c) \<and> \<not> excluded p (c_Name c))
                  (Spec_Containers pod @
                   (if initContainers p then Spec_InitContainers pod else [])))
       \<and> podNameList (Watch_loop p s [Recv e])
           = (remove1 (pod_Name pod) ^^
                length (filter (\<lambda>c. containerFilter p (c_Name c) \<and> \<not> excluded p (c_Name c))
                  (Spec_Containers pod @
                   (if initContainers p then Spec_InitContainers pod else []))))
             (podNameList s)
       \<and> length (podNameList s)
           - length (filter (\<lambda>c. containerFilter p (c_Name c) \<and> \<not> excluded p (c_Name c))
                  (Spec_Containers pod @
                   (if initContainers p then Spec_InitContainers pod else [])))
           \<le> length (podNameList (Watch_loop p s [Recv e]))"
proof -
  have loop: "Watch_loop p s [Recv e] = foldl (container_body p pod) s (containers p pod)"
    by (rule Watch_loop_Deleted [OF assms])
  have sv: "(\<lambda>c. containerFilter p (c_Name c) \<and> \<not> excluded p (c_Name c))
      = (\<lambda>c. survives p (c_Name c))"
    by (simp add: survives_def)
  have cs: "Spec_Containers pod @ (if initContainers p then Spec_InitContainers pod else [])
      = containers p pod"
    by (simp add: containers_def)
  show ?thesis
    unfolding loop sv cs
    by (simp add: sent_fold_container podNameList_fold_container length_funpow_remove1)
qed

text \<open>
  With \<^verbatim>\<open>initContainers\<close> set and \<open>c2\<close> excluded, deleting a pod that declares
  \<open>c1\<close>, \<open>c2\<close> and the init container \<open>init0\<close>, and reports no status at all, sends
  removed Targets for \<open>c1\<close> and \<open>init0\<close>; the registry held \<open>p1\<close> once.
\<close>

theorem deleted_removes_every_child_witness:
  "\<not> returned (Watch_loop ((ex_params False (Some (\<lambda>n. n = ''c2'')))\<lparr>initContainers := True\<rparr>)
        initial [Recv (ex_event Added [ex_status ''c1'' Running])])
   \<and> podNameList (Watch_loop ((ex_params False (Some (\<lambda>n. n = ''c2'')))\<lparr>initContainers := True\<rparr>)
        initial [Recv (ex_event Added [ex_status ''c1'' Running])]) = [''p1'']
   \<and> Watch_loop ((ex_params False (Some (\<lambda>n. n = ''c2'')))\<lparr>initContainers := True\<rparr>)
        (Watch_loop ((ex_params False (Some (\<lambda>n. n = ''c2'')))\<lparr>initContainers := True\<rparr>)
           initial [Recv (ex_event Added [ex_status ''c1'' Running])])
        [Recv \<lparr>Type = Deleted, Object = Some (IsPod
           ((ex_pod [ex_status ''c1'' Running, ex_status ''c2'' Running])
              \<lparr>Status_ContainerStatuses := [],
               Spec_InitContainers := [\<lparr>c_Name = ''init0''\<rparr>]\<rparr>))\<rparr>]
      = \<lparr>podNameList = [],
         sent = [OnAdded (ex_target ''c1''), OnRemoved (ex_target ''c1''),
                 OnRemoved (ex_target ''init0'')],
         added_closed = False, removed_closed = False, watcher_stops = 0, returned = False\<rparr>"
proof -
  let ?p = "(ex_params False (Some (\<lambda>n. n = ''c2'')))\<lparr>initContainers := True\<rparr>"
  let ?s = "Watch_loop ?p initial [Recv (ex_event Added [ex_status ''c1'' Running])]"
  let ?pod = "(ex_pod [ex_status ''c1'' Running, ex_status ''c2'' Running])
              \<lparr>Status_ContainerStatuses := [],
               Spec_InitContainers := [\<lparr>c_Name = ''init0''\<rparr>]\<rparr>"
  let ?e = "\<lparr>Type = Deleted, Object = Some (IsPod ?pod)\<rparr>"
  have h1: "\<not> returned ?s" by (simp add: ex_defs loop_defs Let_def)
  have h2: "Type ?e = Deleted" by simp
  have h3: "Object ?e = Some (IsPod ?pod)" by simp
  have h4: "podFilter ?p (pod_Name ?pod)" by (simp add: ex_defs)
  note T = deleted_removes_every_child [OF h1 h2 h3 h4]
  show ?thesis using T
    by (simp add: ex_defs loop_defs Let_def)
qed

subsection \<open>Removed without added\<close>

text \<open>
  Claim C10. With the wildcard off, let the loop receive an Added or Modified event as
  in C3, with a surviving child \<open>c\<close> whose state the classifier does not match. Then a
  removed Target is sent for \<open>c\<close> whether or not the pod's name is in the registry
  (when it is absent, the send is all that happens), and the event sends no added
  Target for \<open>c\<close>. The witness below is a run in which the removed Target is the first
  notification ever sent for the pair.
\<close>

theorem removed_without_added:
  fixes p :: "'st WatchParams" and pod :: "'st PodObject" and c :: "'st ContainerStatus"
  defines "t \<equiv> newTarget pod (cs_Name c)"
  assumes "\<not> returned s"
    and "Type e = Added \<or> Type e = Modified"
    and "Object e = Some (IsPod pod)"
    and "podFilter p (pod_Name pod)"
    and "statuses p pod = before @ c # after"
    and "distinct (map cs_Name (statuses p pod))"
    and "survives p (cs_Name c)"
    and "\<not> containerState_Match p (cs_State c)"
    and "\<not> containerState_has_ALL p"
  shows "foldl (status_body p pod) s (before @ [c])
           = (if pod_Name pod \<in> set (podNameList (foldl (status_body p pod) s before))
              then (foldl (status_body p pod) s before)
                \<lparr>podNameList :=
                   remove1 (pod_Name pod) (podNameList (foldl (status_body p pod) s before)),
                 sent := sent (foldl (status_body p pod) s before) @ [OnRemoved t]\<rparr>
              else (foldl (status_body p pod) s before)
                \<lparr>sent := sent (foldl (status_body p pod) s before) @ [OnRemoved t]\<rparr>)
       \<and> OnRemoved t \<in> set (sent (Watch_loop p s [Recv e]))
       \<and> count_list (sent (Watch_loop p s [Recv e])) (OnAdded t)
           = count_list (sent s) (OnAdded t)"
proof -
  let ?prev = "foldl (status_body p pod) s before"
  let ?here = "foldl (status_body p pod) s (before @ [c])"
  have step: "status_body p pod ?prev c =
      ?prev\<lparr>podNameList := remove1 (pod_Name pod) (podNameList ?prev),
        sent := sent ?prev @ [OnRemoved t]\<rparr>"
    using assms(8-10) by (simp add: status_body_inactive t_def)
  have here: "?here = status_body p pod ?prev c" by simp
  have loop: "Watch_loop p s [Recv e] = foldl (status_body p pod) ?here after"
    using Watch_loop_AddedModified [OF assms(2-5)] assms(6) by simp
  from assms(6,7) have d: "distinct (map cs_Name (before @ c # after))" by simp
  have "count_list (sent ?prev) (OnAdded t) = count_list (sent s) (OnAdded t)"
    using count_sent_fold_status_other [OF split_names(1) [OF d]] by (simp add: t_def)
  moreover have after: "count_list (sent (foldl (status_body p pod) ?here after)) (OnAdded t)
      = count_list (sent ?here) (OnAdded t)
    \<and> count_list (sent (foldl (status_body p pod) ?here after)) (OnRemoved t)
      = count_list (sent ?here) (OnRemoved t)"
    using count_sent_fold_status_other [OF split_names(2) [OF d]] by (simp add: t_def)
  ultimately have added: "count_list (sent (Watch_loop p s [Recv e])) (OnAdded t)
           = count_list (sent s) (OnAdded t)"
    unfolding loop here step by simp
  from after have "count_list (sent (Watch_loop p s [Recv e])) (OnRemoved t)
      = Suc (count_list (sent ?prev) (OnRemoved t))"
    unfolding loop here step by simp
  then have "0 < count_list (sent (Watch_loop p s [Recv e])) (OnRemoved t)"
    by simp
  then have removed: "OnRemoved t \<in> set (sent (Watch_loop p s [Recv e]))"
    using count_list_0_iff [of "sent (Watch_loop p s [Recv e])" "OnRemoved t"] by auto
  have "pod_Name pod \<notin> set (podNameList ?prev) \<Longrightarrow>
      remove1 (pod_Name pod) (podNameList ?prev) = podNameList ?prev"
    by (rule remove1_idem)
  with step added removed show ?thesis unfolding here by auto
qed

text \<open>
  From the initial state, one Added event that shows \<open>c1\<close> waiting sends a removed
  Target for \<open>c1\<close>; no added Target for it was ever sent.
\<close>

theorem removed_without_added_witness:
  "\<not> containerState_has_ALL (ex_params False None)
   \<and> \<not> containerState_Match (ex_params False None) Waiting
   \<and> survives (ex_params False None) ''c1''
   \<and> ''p1'' \<notin> set (podNameList initial)
   \<and> Watch_loop (ex_params False None) initial [Recv (ex_event Added [ex_status ''c1'' Waiting])]
      = \<lparr>podNameList = [], sent = [OnRemoved (ex_target ''c1'')],
         added_closed = False, removed_closed = False, watcher_stops = 0, returned = False\<rparr>
   \<and> count_list (sent (Watch_loop (ex_params False None) initial
        [Recv (ex_event Added [ex_status ''c1'' Waiting])])) (OnAdded (ex_target ''c1'')) = 0"
proof -
  let ?p = "ex_params False None"
  let ?pod = "ex_pod [ex_status ''c1'' Waiting]"
  let ?e = "ex_event Added [ex_status ''c1'' Waiting]"
  have h1: "\<not> returned initial" by (simp add: initial_def)
  have h2: "Type ?e = Added \<or> Type ?e = Modified" by (simp add: ex_defs)
  have h3: "Object ?e = Some (IsPod ?pod)" by (simp add: ex_defs)
  have h4: "podFilter ?p (pod_Name ?pod)" by (simp add: ex_defs)
  have h5: "statuses ?p ?pod = [] @ ex_status ''c1'' Waiting # []"
    by (simp add: ex_defs statuses_def)
  have h6: "distinct (map cs_Name (statuses ?p ?pod))" by (simp add: ex_defs statuses_def)
  have h7: "survives ?p (cs_Name (ex_status ''c1'' Waiting))"
    by (simp add: ex_defs survives_def excluded_def)
  have h8: "\<not> containerState_Match ?p (cs_State (ex_status ''c1'' Waiting))"
    by (simp add: ex_defs)
  have h9: "\<not> containerState_has_ALL ?p" by (simp add: ex_defs)
  note T = removed_without_added [OF h1 h2 h3 h4 h5 h6 h7 h8 h9]
  show ?thesis using T
    by (simp add: ex_defs loop_defs survives_def Let_def)
qed

end
